theory Spec2Isabelle
  imports Complex_Main "HOL-Library.AList" "HOL-Library.Multiset"
begin

section \<open>The build profiler plugin of src/BuildProfilerPlugin.ts\<close>

text \<open>
  The plugin is a closure over four containers and three numbers, mutated by the hooks
  \<open>buildStart\<close>, \<open>transform\<close>, \<open>moduleParsed\<close> and \<open>closeBundle\<close>. The model passes
  that state explicitly: every hook takes the state and returns the new one, together
  with the numbers it would print where a property depends on them.

  \<^item> A JavaScript \<open>Map\<close> is an association list in insertion order: \<open>set\<close> on a key
    that is present replaces the value in place, \<open>set\<close> on a new key appends, which is
    \<open>AList.update\<close>; \<open>delete\<close> is \<open>AList.delete\<close>, \<open>get\<close> is \<open>map_of\<close> and \<open>size\<close>
    is \<open>length\<close>.
  \<^item> The \<open>Set\<close> of processed ids is never iterated, so it is a HOL set.
  \<^item> The array \<open>slowModules\<close> is a list of pairs \<open>(id, time)\<close>.
  \<^item> Clock values and durations are rationals: the arithmetic of \<open>performance.now()\<close>
    values is exact here, the rounding of doubles is outside the model. The counters
    are natural numbers.
  \<^item> Every reading of \<open>performance.now()\<close> is an argument of the hook that reads it.
    The clock is taken to return a number and not to throw, so the \<open>catch\<close> branches
    of the hooks, which only log, are never entered.
  \<^item> \<open>path.sep\<close> is the parameter \<open>sep\<close> of every function that normalises an id.
  \<^item> The text written to the console is not modelled, only the numbers computed for it;
    \<open>getShortId\<close> and the per-directory statistics of \<open>closeBundle\<close> (a local map filled
    from \<open>moduleTransformTimes\<close>) feed nothing but that text.
\<close>

subsection \<open>State\<close>

record state =
  moduleTransformTimes :: "(string \<times> rat) list"
  slowModules :: "(string \<times> rat) list"
  startTimes :: "(string \<times> rat) list"
  processedIds :: "string set"
  totalModules :: nat
  processedModules :: nat
  buildStartTime :: rat

text \<open>The state in which \<open>buildProfilerPlugin()\<close> creates the closure (lines 5 to 12).\<close>

definition init :: state where
  "init = \<lparr>moduleTransformTimes = [], slowModules = [], startTimes = [],
     processedIds = {}, totalModules = 0, processedModules = 0, buildStartTime = 0\<rparr>"

subsection \<open>Path normalisation (lines 15 to 20)\<close>

definition posix_sep :: char where
  "posix_sep = CHR ''/''"

definition win32_sep :: char where
  "win32_sep = CHR 0x5C"

text \<open>
  \<open>id.split('?')[0]\<close> is the part of \<open>id\<close> before its first question mark (all of it when
  there is none); \<open>cleanId.split(path.sep).join('/')\<close> replaces every occurrence of the
  one-character separator by a slash.
\<close>

definition normalizePath :: "char \<Rightarrow> string \<Rightarrow> string" where
  "normalizePath sep ident =
     (let cleanId = takeWhile (\<lambda>c. c \<noteq> CHR ''?'') ident
      in map (\<lambda>c. if c = sep then CHR ''/'' else c) cleanId)"

subsection \<open>buildStart (lines 34 to 48)\<close>

definition buildStart :: "rat \<Rightarrow> state \<Rightarrow> state" where
  "buildStart now s =
     s\<lparr>totalModules := 0, processedModules := 0, moduleTransformTimes := [],
       slowModules := [], startTimes := [], processedIds := {}, buildStartTime := now\<rparr>"

subsection \<open>transform (lines 50 to 71)\<close>

definition transform :: "char \<Rightarrow> string \<Rightarrow> rat \<Rightarrow> state \<Rightarrow> state" where
  "transform sep ident now s =
     (let normalizedId = normalizePath sep ident;
          s1 = (if normalizedId \<notin> processedIds s
                then s\<lparr>processedIds := insert normalizedId (processedIds s),
                       totalModules := totalModules s + 1\<rparr>
                else s)
      in s1\<lparr>startTimes := AList.update normalizedId now (startTimes s1)\<rparr>)"

subsection \<open>moduleParsed (lines 73 to 109)\<close>

text \<open>
  A JavaScript division by zero does not raise: it yields \<open>NaN\<close> or an infinity. The
  model's quotient is \<open>None\<close> in that case, and stays \<open>None\<close> through the arithmetic
  that follows it.
\<close>

definition js_div :: "rat \<Rightarrow> rat \<Rightarrow> rat option" where
  "js_div a b = (if b = 0 then None else Some (a / b))"

text \<open>The constants of the progress block, lines 91 to 95.\<close>

record snapshot =
  progress :: "rat option"
  elapsedTime :: rat
  avgTimePerModule :: "rat option"
  remainingModules :: int
  estimatedRemainingTime :: "rat option"

definition progress_snapshot :: "rat \<Rightarrow> state \<Rightarrow> snapshot" where
  "progress_snapshot now s =
     (let elapsed = (now - buildStartTime s) / 1000;
          avg = js_div elapsed (of_nat (processedModules s));
          remaining = int (totalModules s) - int (processedModules s)
      in \<lparr>progress = map_option (\<lambda>q. q * 100)
                        (js_div (of_nat (processedModules s)) (of_nat (totalModules s))),
          elapsedTime = elapsed,
          avgTimePerModule = avg,
          remainingModules = remaining,
          estimatedRemainingTime = map_option (\<lambda>a. of_int remaining * a) avg\<rparr>)"

text \<open>
  \<open>if (!startTime) return\<close> leaves the hook when the lookup is \<open>undefined\<close> and also
  when the stored number is \<open>0\<close>, which is falsy as well. \<open>now\<close> is the clock at line 79,
  \<open>now2\<close> the clock at line 92. The second component of the result is the progress
  snapshot, when one is printed.
\<close>

definition moduleParsed ::
  "char \<Rightarrow> string \<Rightarrow> rat \<Rightarrow> rat \<Rightarrow> state \<Rightarrow> state \<times> snapshot option" where
  "moduleParsed sep ident now now2 s =
     (let normalizedId = normalizePath sep ident
      in case map_of (startTimes s) normalizedId of
           None \<Rightarrow> (s, None)
         | Some startTime \<Rightarrow>
             if startTime = 0 then (s, None)
             else
               let duration = now - startTime;
                   s1 = s\<lparr>moduleTransformTimes :=
                            AList.update normalizedId duration (moduleTransformTimes s),
                          processedModules := processedModules s + 1\<rparr>;
                   s2 = (if duration > 200
                         then s1\<lparr>slowModules := slowModules s1 @ [(normalizedId, duration)]\<rparr>
                         else s1);
                   shown = (if processedModules s2 mod 100 = 0
                               \<or> processedModules s2 = totalModules s2
                            then Some (progress_snapshot now2 s2) else None)
               in (s2\<lparr>startTimes := AList.delete normalizedId (startTimes s2)\<rparr>, shown))"

subsection \<open>closeBundle (lines 111 to 156)\<close>

text \<open>
  \<open>slowModules.sort((a, b) => b.time - a.time)\<close> sorts the array itself, stably, by
  descending time: a stable sort on the negated time. \<open>slice(0, 10)\<close> is \<open>take 10\<close>.
\<close>

definition sort_slowest :: "(string \<times> rat) list \<Rightarrow> (string \<times> rat) list" where
  "sort_slowest xs = sort_key (\<lambda>e. - snd e) xs"

record report =
  slowest :: "(string \<times> rat) list"
  shownTotalModules :: nat
  shownSlowModules :: nat
  totalTime :: rat
  averageTime :: "rat option"

definition closeBundle :: "state \<Rightarrow> state \<times> report option" where
  "closeBundle s =
     (if length (slowModules s) = 0 then (s, None)
      else
        let s1 = s\<lparr>slowModules := sort_slowest (slowModules s)\<rparr>;
            total = foldl (\<lambda>a b. a + b) 0 (map snd (moduleTransformTimes s1))
        in (s1, Some \<lparr>slowest = take 10 (slowModules s1),
                      shownTotalModules = totalModules s1,
                      shownSlowModules = length (slowModules s1),
                      totalTime = total,
                      averageTime = js_div total (of_nat (totalModules s1))\<rparr>))"

subsection \<open>Runs of the plugin\<close>

text \<open>
  The host calls the hooks one after the other; a run is the list of calls, each with
  the clock values it reads.
\<close>

datatype event =
  BuildStart rat
| Transform string rat
| ModuleParsed string rat rat
| CloseBundle

fun step :: "char \<Rightarrow> state \<Rightarrow> event \<Rightarrow> state" where
  "step sep s (BuildStart now) = buildStart now s"
| "step sep s (Transform ident now) = transform sep ident now s"
| "step sep s (ModuleParsed ident now now2) = fst (moduleParsed sep ident now now2 s)"
| "step sep s CloseBundle = fst (closeBundle s)"

definition exec :: "char \<Rightarrow> event list \<Rightarrow> state \<Rightarrow> state" where
  "exec sep evs s = foldl (step sep) s evs"

subsection \<open>What every run keeps true\<close>

text \<open>
  The facts about the state that every hook preserves: the counter of distinct ids is the
  size of the id set, every id with a pending start or a recorded duration was counted,
  the counter of completions is at least the number of recorded durations, and a slow
  module has a recorded duration.
\<close>

definition inv :: "state \<Rightarrow> bool" where
  "inv s \<longleftrightarrow>
     finite (processedIds s)
   \<and> totalModules s = card (processedIds s)
   \<and> fst ` set (startTimes s) \<subseteq> processedIds s
   \<and> fst ` set (moduleTransformTimes s) \<subseteq> processedIds s
   \<and> length (moduleTransformTimes s) \<le> processedModules s
   \<and> fst ` set (slowModules s) \<subseteq> fst ` set (moduleTransformTimes s)
   \<and> (slowModules s \<noteq> [] \<longrightarrow> 0 < processedModules s)"

subsection \<open>Notions used to state the properties\<close>

text \<open>A start call and a completion call, from the id and the clock values it reads.\<close>

fun start_event :: "string \<times> rat \<Rightarrow> event" where
  "start_event (ident, now) = Transform ident now"

fun complete_event :: "string \<times> rat \<times> rat \<Rightarrow> event" where
  "complete_event (ident, now, now2) = ModuleParsed ident now now2"

text \<open>The calls that reset the state.\<close>

fun is_reset :: "event \<Rightarrow> bool" where
  "is_reset (BuildStart now) = True"
| "is_reset e = False"

text \<open>
  A call overwrites when it is a completion that records a duration (the key has a
  pending start whose clock value is not 0) for a key that has a recorded duration
  already. \<open>overwrite_count sep s n evs\<close> runs the calls \<open>evs\<close> from the state \<open>s\<close> and
  counts the overwriting calls since the last \<open>buildStart\<close>, starting from \<open>n\<close>.
\<close>

fun overwrites :: "char \<Rightarrow> state \<Rightarrow> event \<Rightarrow> bool" where
  "overwrites sep s (ModuleParsed ident now now2) =
     (case map_of (startTimes s) (normalizePath sep ident) of
        None \<Rightarrow> False
      | Some startTime \<Rightarrow>
          startTime \<noteq> 0
          \<and> map_of (moduleTransformTimes s) (normalizePath sep ident) \<noteq> None)"
| "overwrites sep s e = False"

fun overwrite_count :: "char \<Rightarrow> state \<Rightarrow> nat \<Rightarrow> event list \<Rightarrow> nat" where
  "overwrite_count sep s n [] = n"
| "overwrite_count sep s n (e # evs) =
     overwrite_count sep (step sep s e)
       (if is_reset e then 0 else if overwrites sep s e then n + 1 else n) evs"

text \<open>
  The values of \<open>processedModules\<close> at which a run prints a progress snapshot: a call of
  \<open>moduleParsed\<close> contributes the counter it leaves when it prints one, any other call
  contributes nothing.
\<close>

fun shown_count :: "char \<Rightarrow> state \<Rightarrow> event \<Rightarrow> nat list" where
  "shown_count sep s (ModuleParsed ident now now2) =
     (case snd (moduleParsed sep ident now now2 s) of
        None \<Rightarrow> []
      | Some snap \<Rightarrow> [processedModules (fst (moduleParsed sep ident now now2 s))])"
| "shown_count sep s e = []"

fun fired_counts :: "char \<Rightarrow> state \<Rightarrow> event list \<Rightarrow> nat list" where
  "fired_counts sep s [] = []"
| "fired_counts sep s (e # evs) = shown_count sep s e @ fired_counts sep (step sep s e) evs"

text \<open>A key has a pending start whose clock value is not 0.\<close>

definition pending_nonzero :: "state \<Rightarrow> string \<Rightarrow> bool" where
  "pending_nonzero s k \<longleftrightarrow> (case map_of (startTimes s) k of None \<Rightarrow> False | Some t \<Rightarrow> t \<noteq> 0)"

text \<open>
  150 distinct ids \<open>/src/m\<close>, \<open>/src/mx\<close>, \<open>/src/mxx\<close>, ... and the build that starts and
  completes them one after the other, each with duration 1.
\<close>

definition unit_id :: "nat \<Rightarrow> string" where
  "unit_id n = ''/src/m'' @ replicate n (CHR ''x'')"

definition interleaved_build :: "event list" where
  "interleaved_build =
     concat (map (\<lambda>n. [Transform (unit_id n) 1, ModuleParsed (unit_id n) 2 2]) [0..<150])"

section \<open>Properties\<close>

lemma exec_Nil: "exec sep [] s = s"
  by (simp add: exec_def)

lemma exec_Cons: "exec sep (e # evs) s = exec sep evs (step sep s e)"
  by (simp add: exec_def)

lemma exec_snoc: "exec sep (evs @ [e]) s = step sep (exec sep evs s) e"
  by (simp add: exec_def)

lemmas hook_defs = exec_def init_def buildStart_def transform_def moduleParsed_def
  closeBundle_def normalizePath_def posix_sep_def win32_sep_def Let_def

subsection \<open>The invariant\<close>

lemma inv_init: "inv init"
  by (simp add: inv_def init_def)

lemma inv_buildStart: "inv (buildStart now s)"
  by (simp add: inv_def buildStart_def)

lemma inv_transform: "inv s \<Longrightarrow> inv (transform sep ident now s)"
  by (auto simp: inv_def transform_def Let_def AList.dom_update)

lemma map_of_Some_key: "map_of al k = Some v \<Longrightarrow> k \<in> fst ` set al"
  by (metis domI dom_map_of_conv_image_fst)

lemma length_update_le: "length (AList.update k v al) \<le> Suc (length al)"
  by (induction al) auto

lemma inv_moduleParsed: "inv s \<Longrightarrow> inv (fst (moduleParsed sep ident now now2 s))"
proof -
  assume a: "inv s"
  show ?thesis
  proof (cases "map_of (startTimes s) (normalizePath sep ident)")
    case None
    with a show ?thesis by (simp add: moduleParsed_def)
  next
    case (Some st)
    then have k: "normalizePath sep ident \<in> processedIds s"
      using a map_of_Some_key[OF Some] by (auto simp: inv_def)
    have l: "length (AList.update (normalizePath sep ident) (now - st) (moduleTransformTimes s))
        \<le> Suc (processedModules s)"
      using a length_update_le[of "normalizePath sep ident" "now - st" "moduleTransformTimes s"]
      by (simp add: inv_def)
    have d: "fst ` set (AList.delete (normalizePath sep ident) (startTimes s)) \<subseteq> processedIds s"
      using a AList.dom_delete_subset[of "normalizePath sep ident" "startTimes s"]
      by (auto simp: inv_def)
    from a Some k l d show ?thesis
      by (auto simp: moduleParsed_def Let_def inv_def AList.dom_update)
  qed
qed

lemma inv_closeBundle: "inv s \<Longrightarrow> inv (fst (closeBundle s))"
  by (auto simp: inv_def closeBundle_def Let_def sort_slowest_def)

lemma inv_step: "inv s \<Longrightarrow> inv (step sep s e)"
  by (cases e) (simp_all add: inv_buildStart inv_transform inv_moduleParsed inv_closeBundle)

lemma inv_exec: "inv s \<Longrightarrow> inv (exec sep evs s)"
  by (induction evs arbitrary: s) (simp_all add: exec_Nil exec_Cons inv_step)

lemma inv_slow_total: "inv s \<Longrightarrow> slowModules s \<noteq> [] \<Longrightarrow> 0 < totalModules s"
  by (cases "slowModules s") (auto simp: inv_def card_gt_0_iff)

subsection \<open>A start at clock value 0\<close>

text \<open>
  Claim C1. The scenario of the specification: after a reset, a start of \<open>/src/a.ts\<close> at
  clock value 0 and its completion at 250. The specification expects the duration 250 to
  be recorded and the unit to be listed as slow. In the code the stored start time 0 is
  falsy, so \<open>moduleParsed\<close> returns at line 77: nothing is recorded, nothing is listed,
  the completion counter stays 0 and the start stays pending. The same two calls one
  clock unit later, at 1 and 251, record the duration 250 and list the unit.
\<close>

theorem moduleParsed_start_at_zero_ignored:
  "(let s = exec posix_sep
        [BuildStart 0, Transform ''/src/a.ts'' 0, ModuleParsed ''/src/a.ts'' 250 250] init;
        s' = exec posix_sep
        [BuildStart 0, Transform ''/src/a.ts'' 1, ModuleParsed ''/src/a.ts'' 251 251] init
    in moduleTransformTimes s = [] \<and> slowModules s = []
       \<and> processedModules s = 0 \<and> startTimes s = [(''/src/a.ts'', 0)]
       \<and> moduleTransformTimes s' = [(''/src/a.ts'', 250)]
       \<and> slowModules s' = [(''/src/a.ts'', 250)]
       \<and> processedModules s' = 1 \<and> startTimes s' = [])"
  by (simp add: hook_defs)

subsection \<open>A completion without a start\<close>

text \<open>
  Claim C5. When the normalised key of \<open>x\<close> has no pending start, \<open>moduleParsed\<close> on \<open>x\<close>
  returns the state it was given, every field of it, and prints no progress snapshot.
\<close>

theorem moduleParsed_without_start:
  assumes "normalizePath sep x \<notin> fst ` set (startTimes s)"
  shows "moduleParsed sep x now now2 s = (s, None)"
proof -
  from assms have "map_of (startTimes s) (normalizePath sep x) = None"
    by (simp add: map_of_eq_None_iff)
  then show ?thesis by (simp add: moduleParsed_def)
qed

theorem moduleParsed_without_start_witness:
  "normalizePath posix_sep ''/src/b.ts''
     \<notin> fst ` set (startTimes (transform posix_sep ''/src/a.ts'' 5 init))
   \<and> moduleParsed posix_sep ''/src/b.ts'' 9 9 (transform posix_sep ''/src/a.ts'' 5 init)
     = (transform posix_sep ''/src/a.ts'' 5 init, None)"
proof -
  have h: "normalizePath posix_sep ''/src/b.ts''
      \<notin> fst ` set (startTimes (transform posix_sep ''/src/a.ts'' 5 init))"
    by (simp add: hook_defs)
  show ?thesis using h moduleParsed_without_start [OF h, of 9 9] by simp
qed

subsection \<open>The threshold of slow modules\<close>

text \<open>
  Claim C7. A completion that records a duration \<open>d\<close> (the key has a pending start whose
  clock value is not 0) stores \<open>d\<close> for the key, and appends \<open>(key, d)\<close> to the list of
  slow modules exactly when \<open>d > 200\<close>; otherwise the list is as it was. A duration of
  exactly 200 is not appended.
\<close>

theorem outlier_iff_above_200:
  assumes "map_of (startTimes s) (normalizePath sep x) = Some st" and "st \<noteq> 0"
  shows "(let s' = fst (moduleParsed sep x now now2 s); d = now - st; key = normalizePath sep x
          in map_of (moduleTransformTimes s') key = Some d
             \<and> (slowModules s' = slowModules s @ [(key, d)] \<longleftrightarrow> d > 200)
             \<and> (slowModules s' = slowModules s \<longleftrightarrow> \<not> d > 200))"
  using assms by (simp add: moduleParsed_def Let_def AList.update_conv')

theorem outlier_iff_above_200_witness:
  "map_of (startTimes (transform posix_sep ''/src/a.ts'' 1 init))
       (normalizePath posix_sep ''/src/a.ts'') = Some 1
   \<and> slowModules (fst (moduleParsed posix_sep ''/src/a.ts'' 201 201
         (transform posix_sep ''/src/a.ts'' 1 init))) = []
   \<and> map_of (moduleTransformTimes (fst (moduleParsed posix_sep ''/src/a.ts'' 201 201
         (transform posix_sep ''/src/a.ts'' 1 init)))) ''/src/a.ts'' = Some 200"
proof -
  have h: "map_of (startTimes (transform posix_sep ''/src/a.ts'' 1 init))
       (normalizePath posix_sep ''/src/a.ts'') = Some 1"
    by (simp add: hook_defs)
  have k: "normalizePath posix_sep ''/src/a.ts'' = ''/src/a.ts''"
    by (simp add: hook_defs)
  have e: "slowModules (transform posix_sep ''/src/a.ts'' 1 init) = []"
    by (simp add: hook_defs)
  have z: "(1::rat) \<noteq> 0" by simp
  show ?thesis
    using h outlier_iff_above_200 [OF h z, of 201 201]
    by (simp add: Let_def k e)
qed

subsection \<open>The counter of distinct ids\<close>

text \<open>
  Claim C10. After \<open>buildStart\<close>, whatever hooks are called afterwards and in whatever
  order, \<open>totalModules\<close> is the number of elements of \<open>processedIds\<close>; and every single
  hook call preserves this equality from any state with finitely many ids.
\<close>

theorem counters_match_known_ids:
  "totalModules (exec sep evs (buildStart now s0))
     = card (processedIds (exec sep evs (buildStart now s0)))
   \<and> (finite (processedIds s) \<and> totalModules s = card (processedIds s)
        \<longrightarrow> totalModules (step sep s e) = card (processedIds (step sep s e)))"
proof
  have "inv (exec sep evs (buildStart now s0))"
    by (rule inv_exec) (rule inv_buildStart)
  then show "totalModules (exec sep evs (buildStart now s0))
     = card (processedIds (exec sep evs (buildStart now s0)))"
    by (simp add: inv_def)
next
  show "finite (processedIds s) \<and> totalModules s = card (processedIds s)
        \<longrightarrow> totalModules (step sep s e) = card (processedIds (step sep s e))"
    by (cases e)
       (auto simp: buildStart_def transform_def moduleParsed_def closeBundle_def Let_def
             split: option.splits)
qed

theorem counters_match_known_ids_witness:
  "card (processedIds (exec posix_sep
       [Transform ''/src/a.ts'' 1, Transform ''/src/a.ts?v=2'' 2, Transform ''/src/b.ts'' 3,
        ModuleParsed ''/src/a.ts'' 4 4]
       (buildStart 0 init))) = 2
   \<and> card (processedIds (step posix_sep init (Transform ''/src/a.ts'' 1))) = 1"
proof -
  have a: "totalModules (exec posix_sep
       [Transform ''/src/a.ts'' 1, Transform ''/src/a.ts?v=2'' 2, Transform ''/src/b.ts'' 3,
        ModuleParsed ''/src/a.ts'' 4 4]
       (buildStart 0 init)) = 2"
    by (simp add: hook_defs)
  have b: "finite (processedIds init) \<and> totalModules init = card (processedIds init)"
    by (simp add: init_def)
  have c: "totalModules (step posix_sep init (Transform ''/src/a.ts'' 1)) = 1"
    by (simp add: hook_defs)
  show ?thesis
    using a b c
      counters_match_known_ids [of posix_sep
        "[Transform ''/src/a.ts'' 1, Transform ''/src/a.ts?v=2'' 2, Transform ''/src/b.ts'' 3,
          ModuleParsed ''/src/a.ts'' 4 4]" 0 init init "Transform ''/src/a.ts'' 1"]
    by simp
qed

subsection \<open>The counter of completions\<close>

lemma length_update_known:
  "map_of al k \<noteq> None \<Longrightarrow> length (AList.update k v al) = length al"
  by (induction al) auto

lemma length_update_unknown:
  "map_of al k = None \<Longrightarrow> length (AList.update k v al) = Suc (length al)"
  by (induction al) (auto split: if_splits)

lemma overwriting_step:
  assumes "overwrites sep s e"
  shows "processedModules (step sep s e) = processedModules s + 1
       \<and> length (moduleTransformTimes (step sep s e)) = length (moduleTransformTimes s)"
proof (cases e)
  case (ModuleParsed ident now now2)
  with assms obtain st where st: "map_of (startTimes s) (normalizePath sep ident) = Some st"
      "st \<noteq> 0" "map_of (moduleTransformTimes s) (normalizePath sep ident) \<noteq> None"
    by (auto split: option.splits)
  from st(3) have "length (AList.update (normalizePath sep ident) (now - st)
      (moduleTransformTimes s)) = length (moduleTransformTimes s)"
    by (rule length_update_known)
  with st ModuleParsed show ?thesis
    by (simp add: moduleParsed_def Let_def)
qed (use assms in simp_all)

lemma count_step:
  assumes "processedModules s = length (moduleTransformTimes s) + n"
  shows "processedModules (step sep s e)
       = length (moduleTransformTimes (step sep s e))
         + (if is_reset e then 0 else if overwrites sep s e then n + 1 else n)"
proof (cases e)
  case (BuildStart now)
  then show ?thesis by (simp add: buildStart_def)
next
  case (Transform ident now)
  with assms show ?thesis by (simp add: transform_def Let_def)
next
  case CloseBundle
  with assms show ?thesis by (simp add: closeBundle_def Let_def)
next
  case (ModuleParsed ident now now2)
  show ?thesis
  proof (cases "overwrites sep s e")
    case True
    from overwriting_step [OF True] assms True ModuleParsed show ?thesis by simp
  next
    case False
    show ?thesis
    proof (cases "map_of (startTimes s) (normalizePath sep ident)")
      case None
      with assms ModuleParsed show ?thesis by (simp add: moduleParsed_def)
    next
      case (Some st)
      show ?thesis
      proof (cases "st = 0")
        case True
        with Some assms ModuleParsed show ?thesis by (simp add: moduleParsed_def)
      next
        case nz: False
        with False Some ModuleParsed
        have "map_of (moduleTransformTimes s) (normalizePath sep ident) = None" by simp
        then have "length (AList.update (normalizePath sep ident) (now - st)
            (moduleTransformTimes s)) = Suc (length (moduleTransformTimes s))"
          by (rule length_update_unknown)
        with nz Some assms ModuleParsed False show ?thesis
          by (simp add: moduleParsed_def Let_def)
      qed
    qed
  qed
qed

lemma count_exec:
  "processedModules s = length (moduleTransformTimes s) + n \<Longrightarrow>
   processedModules (exec sep evs s)
     = length (moduleTransformTimes (exec sep evs s)) + overwrite_count sep s n evs"
proof (induction evs arbitrary: s n)
  case Nil
  then show ?case by (simp add: exec_Nil)
next
  case (Cons e evs)
  from count_step [OF Cons.prems, of sep e]
  show ?case by (simp add: exec_Cons Cons.IH)
qed

text \<open>
  Claim C2, as it is stated, fails: a second start and completion of a key that has
  completed once increments \<open>processedModules\<close> a second time, while the \<open>Map\<close> still
  holds one entry for the key.
\<close>

theorem second_completion_counted_twice:
  "processedModules (exec posix_sep
      [BuildStart 0, Transform ''/src/a.ts'' 1, ModuleParsed ''/src/a.ts'' 2 2,
       Transform ''/src/a.ts'' 3, ModuleParsed ''/src/a.ts'' 4 4] init)
   \<noteq> length (moduleTransformTimes (exec posix_sep
      [BuildStart 0, Transform ''/src/a.ts'' 1, ModuleParsed ''/src/a.ts'' 2 2,
       Transform ''/src/a.ts'' 3, ModuleParsed ''/src/a.ts'' 4 4] init))"
  by (simp add: hook_defs)

text \<open>
  Claim C2, amended. At every point of every run, \<open>processedModules\<close> is the number of
  entries of \<open>moduleTransformTimes\<close> plus the number of overwriting completions since the
  last \<open>buildStart\<close>. So it is at least the number of entries, and equal to it exactly
  when no completion since the last \<open>buildStart\<close> has recorded a duration for a key that
  had one already. Every key of \<open>moduleTransformTimes\<close> is in \<open>processedIds\<close>. And in any
  state, an overwriting completion increments \<open>processedModules\<close> and leaves the number
  of entries as it was.
\<close>

theorem completions_counted:
  "processedModules (exec sep evs init)
     = length (moduleTransformTimes (exec sep evs init)) + overwrite_count sep init 0 evs
   \<and> length (moduleTransformTimes (exec sep evs init)) \<le> processedModules (exec sep evs init)
   \<and> (processedModules (exec sep evs init) = length (moduleTransformTimes (exec sep evs init))
        \<longleftrightarrow> overwrite_count sep init 0 evs = 0)
   \<and> fst ` set (moduleTransformTimes (exec sep evs init)) \<subseteq> processedIds (exec sep evs init)
   \<and> (overwrites sep s e
        \<longrightarrow> processedModules (step sep s e) = processedModules s + 1
          \<and> length (moduleTransformTimes (step sep s e)) = length (moduleTransformTimes s))"
proof -
  have c: "processedModules (exec sep evs init)
     = length (moduleTransformTimes (exec sep evs init)) + overwrite_count sep init 0 evs"
    by (rule count_exec) (simp add: init_def)
  have "inv (exec sep evs init)" by (rule inv_exec) (rule inv_init)
  then have k: "fst ` set (moduleTransformTimes (exec sep evs init))
      \<subseteq> processedIds (exec sep evs init)"
    by (simp add: inv_def)
  from c k overwriting_step [of sep s e] show ?thesis by simp
qed

theorem completions_counted_witness:
  "processedModules (exec posix_sep
      [BuildStart 0, Transform ''/src/a.ts'' 1, ModuleParsed ''/src/a.ts'' 2 2,
       Transform ''/src/a.ts'' 3, ModuleParsed ''/src/a.ts'' 4 4] init) = 2
   \<and> overwrites posix_sep
       (exec posix_sep [BuildStart 0, Transform ''/src/a.ts'' 1, ModuleParsed ''/src/a.ts'' 2 2,
          Transform ''/src/a.ts'' 3] init)
       (ModuleParsed ''/src/a.ts'' 4 4)
   \<and> length (moduleTransformTimes (step posix_sep
       (exec posix_sep [BuildStart 0, Transform ''/src/a.ts'' 1, ModuleParsed ''/src/a.ts'' 2 2,
          Transform ''/src/a.ts'' 3] init)
       (ModuleParsed ''/src/a.ts'' 4 4))) = 1
   \<and> processedModules (exec posix_sep
      [BuildStart 0, ModuleParsed ''/src/a.ts'' 1 1, Transform ''/src/a.ts'' 2,
       ModuleParsed ''/src/a.ts'' 3 3] init) = 1"
proof -
  have l: "length (moduleTransformTimes (exec posix_sep
      [BuildStart 0, Transform ''/src/a.ts'' 1, ModuleParsed ''/src/a.ts'' 2 2,
       Transform ''/src/a.ts'' 3, ModuleParsed ''/src/a.ts'' 4 4] init)) = 1"
    by (simp add: hook_defs)
  have n: "overwrite_count posix_sep init 0
      [BuildStart 0, Transform ''/src/a.ts'' 1, ModuleParsed ''/src/a.ts'' 2 2,
       Transform ''/src/a.ts'' 3, ModuleParsed ''/src/a.ts'' 4 4] = 1"
    by (simp add: hook_defs)
  have o: "overwrites posix_sep
       (exec posix_sep [BuildStart 0, Transform ''/src/a.ts'' 1, ModuleParsed ''/src/a.ts'' 2 2,
          Transform ''/src/a.ts'' 3] init)
       (ModuleParsed ''/src/a.ts'' 4 4)"
    by (simp add: hook_defs)
  have m: "length (moduleTransformTimes
       (exec posix_sep [BuildStart 0, Transform ''/src/a.ts'' 1, ModuleParsed ''/src/a.ts'' 2 2,
          Transform ''/src/a.ts'' 3] init)) = 1"
    by (simp add: hook_defs)
  have l': "length (moduleTransformTimes (exec posix_sep
      [BuildStart 0, ModuleParsed ''/src/a.ts'' 1 1, Transform ''/src/a.ts'' 2,
       ModuleParsed ''/src/a.ts'' 3 3] init)) = 1"
    by (simp add: hook_defs)
  have n': "overwrite_count posix_sep init 0
      [BuildStart 0, ModuleParsed ''/src/a.ts'' 1 1, Transform ''/src/a.ts'' 2,
       ModuleParsed ''/src/a.ts'' 3 3] = 0"
    by (simp add: hook_defs)
  show ?thesis
    using l n o m l' n'
      completions_counted [of posix_sep
        "[BuildStart 0, Transform ''/src/a.ts'' 1, ModuleParsed ''/src/a.ts'' 2 2,
          Transform ''/src/a.ts'' 3, ModuleParsed ''/src/a.ts'' 4 4]"
        "exec posix_sep [BuildStart 0, Transform ''/src/a.ts'' 1, ModuleParsed ''/src/a.ts'' 2 2,
          Transform ''/src/a.ts'' 3] init"
        "ModuleParsed ''/src/a.ts'' 4 4"]
      completions_counted [of posix_sep
        "[BuildStart 0, ModuleParsed ''/src/a.ts'' 1 1, Transform ''/src/a.ts'' 2,
          ModuleParsed ''/src/a.ts'' 3 3]"
        "exec posix_sep [BuildStart 0, Transform ''/src/a.ts'' 1, ModuleParsed ''/src/a.ts'' 2 2,
          Transform ''/src/a.ts'' 3] init"
        "ModuleParsed ''/src/a.ts'' 4 4"]
    by simp
qed

subsection \<open>The final report\<close>

text \<open>
  Claim C3, as it is stated, fails: \<open>closeBundle\<close> sorts \<open>slowModules\<close> in place, so two
  slow modules recorded in ascending order of duration have changed places after the
  report.
\<close>

theorem closeBundle_reorders_slowModules:
  "slowModules (fst (closeBundle (exec posix_sep
      [BuildStart 0, Transform ''/src/a.ts'' 1, Transform ''/src/b.ts'' 1,
       ModuleParsed ''/src/a.ts'' 300 300, ModuleParsed ''/src/b.ts'' 500 500] init)))
   \<noteq> slowModules (exec posix_sep
      [BuildStart 0, Transform ''/src/a.ts'' 1, Transform ''/src/b.ts'' 1,
       ModuleParsed ''/src/a.ts'' 300 300, ModuleParsed ''/src/b.ts'' 500 500] init)"
  by (simp add: hook_defs sort_slowest_def)

lemma closeBundle_state:
  "fst (closeBundle s) = s\<lparr>slowModules := sort_slowest (slowModules s)\<rparr>"
  by (cases "slowModules s") (simp_all add: closeBundle_def Let_def sort_slowest_def)

text \<open>
  Claim C3, amended. \<open>closeBundle\<close> leaves \<open>processedIds\<close>, \<open>startTimes\<close>,
  \<open>moduleTransformTimes\<close>, both counters and the build start time as they were. Of
  \<open>slowModules\<close> it keeps the entries and changes their order only: afterwards the list
  is in descending order of duration, entries of equal duration in the order they had;
  a list that was in descending order already is unchanged, and so is then the whole
  state.
\<close>

theorem closeBundle_frame:
  "(let s' = fst (closeBundle s)
    in processedIds s' = processedIds s
     \<and> startTimes s' = startTimes s
     \<and> moduleTransformTimes s' = moduleTransformTimes s
     \<and> totalModules s' = totalModules s
     \<and> processedModules s' = processedModules s
     \<and> buildStartTime s' = buildStartTime s
     \<and> mset (slowModules s') = mset (slowModules s)
     \<and> sorted (rev (map snd (slowModules s')))
     \<and> (\<forall>d. filter (\<lambda>e. snd e = d) (slowModules s') = filter (\<lambda>e. snd e = d) (slowModules s))
     \<and> (sorted (rev (map snd (slowModules s))) \<longrightarrow> s' = s))"
proof -
  have srt: "sorted (map (\<lambda>e. - snd e) (sort_slowest (slowModules s)))"
    by (simp add: sort_slowest_def)
  have desc: "sorted (rev (map snd xs)) \<longleftrightarrow> sorted (map (\<lambda>e. - snd e) xs)"
    for xs :: "(string \<times> rat) list"
    by (induction xs) (auto simp: sorted_append)
  have stable: "filter (\<lambda>e. snd e = d) (sort_slowest (slowModules s))
      = filter (\<lambda>e. snd e = d) (slowModules s)" for d
    using sort_key_stable [of "\<lambda>e. - snd e" "- d" "slowModules s"]
    by (simp add: sort_slowest_def)
  have same: "sort_slowest (slowModules s) = slowModules s"
    if "sorted (rev (map snd (slowModules s)))"
    using that by (simp add: sort_slowest_def desc sort_key_id_if_sorted)
  show ?thesis
    using srt stable same
    by (simp add: Let_def closeBundle_state desc sort_slowest_def)
qed

theorem closeBundle_frame_witness:
  "sorted (rev (map snd (slowModules (exec posix_sep
      [BuildStart 0, Transform ''/src/a.ts'' 1, Transform ''/src/b.ts'' 1,
       ModuleParsed ''/src/a.ts'' 500 500, ModuleParsed ''/src/b.ts'' 300 300] init))))
   \<and> fst (closeBundle (exec posix_sep
      [BuildStart 0, Transform ''/src/a.ts'' 1, Transform ''/src/b.ts'' 1,
       ModuleParsed ''/src/a.ts'' 500 500, ModuleParsed ''/src/b.ts'' 300 300] init))
     = exec posix_sep
      [BuildStart 0, Transform ''/src/a.ts'' 1, Transform ''/src/b.ts'' 1,
       ModuleParsed ''/src/a.ts'' 500 500, ModuleParsed ''/src/b.ts'' 300 300] init"
proof -
  have h: "sorted (rev (map snd (slowModules (exec posix_sep
      [BuildStart 0, Transform ''/src/a.ts'' 1, Transform ''/src/b.ts'' 1,
       ModuleParsed ''/src/a.ts'' 500 500, ModuleParsed ''/src/b.ts'' 300 300] init))))"
    by (simp add: hook_defs)
  show ?thesis
    using h closeBundle_frame [of "exec posix_sep
      [BuildStart 0, Transform ''/src/a.ts'' 1, Transform ''/src/b.ts'' 1,
       ModuleParsed ''/src/a.ts'' 500 500, ModuleParsed ''/src/b.ts'' 300 300] init"]
    unfolding Let_def by blast
qed

subsection \<open>The cadence of progress snapshots\<close>

lemma fired_counts_append:
  "fired_counts sep s (xs @ ys) = fired_counts sep s xs @ fired_counts sep (exec sep xs s) ys"
  by (induction xs arbitrary: s) (simp_all add: exec_Nil exec_Cons)

lemma fired_counts_starts: "fired_counts sep s (map start_event starts) = []"
proof (induction starts arbitrary: s)
  case Nil
  show ?case by simp
next
  case (Cons x xs)
  obtain a t where "x = (a, t)" by (cases x)
  with Cons show ?case by simp
qed

lemma starts_phase:
  assumes "distinct (map (\<lambda>x. normalizePath sep (fst x)) starts)"
    and "\<forall>x\<in>set starts. snd x \<noteq> 0"
    and "\<forall>x\<in>set starts. normalizePath sep (fst x) \<notin> processedIds s"
  shows "totalModules (exec sep (map start_event starts) s) = totalModules s + length starts
       \<and> processedModules (exec sep (map start_event starts) s) = processedModules s
       \<and> processedIds (exec sep (map start_event starts) s)
           = processedIds s \<union> (\<lambda>x. normalizePath sep (fst x)) ` set starts
       \<and> (\<forall>x\<in>set starts.
             pending_nonzero (exec sep (map start_event starts) s) (normalizePath sep (fst x)))"
  using assms
proof (induction starts rule: rev_induct)
  case Nil
  show ?case by (simp add: exec_Nil)
next
  case (snoc x xs)
  obtain a t where x: "x = (a, t)" by (cases x)
  let ?s = "exec sep (map start_event xs) s"
  from snoc.prems have ih: "totalModules ?s = totalModules s + length xs
       \<and> processedModules ?s = processedModules s
       \<and> processedIds ?s = processedIds s \<union> (\<lambda>x. normalizePath sep (fst x)) ` set xs
       \<and> (\<forall>x\<in>set xs. pending_nonzero ?s (normalizePath sep (fst x)))"
    by (intro snoc.IH) auto
  from snoc.prems x ih have fresh: "normalizePath sep a \<notin> processedIds ?s"
    by auto
  from snoc.prems x have t: "t \<noteq> 0" by simp
  have e: "exec sep (map start_event (xs @ [x])) s = transform sep a t ?s"
    by (simp add: x exec_snoc)
  have p: "pending_nonzero (transform sep a t ?s) k" if "k = normalizePath sep a \<or> pending_nonzero ?s k" for k
    using that t by (auto simp: pending_nonzero_def transform_def Let_def AList.update_conv')
  from ih fresh p show ?case
    unfolding e by (auto simp: x transform_def Let_def)
qed

lemma upt_first: "[m ..< m + Suc n] = m # [m + 1 ..< m + 1 + n]"
  by (simp add: upt_conv_Cons)

lemma completes_phase:
  assumes "distinct (map (\<lambda>c. normalizePath sep (fst c)) completes)"
    and "\<forall>c\<in>set completes. pending_nonzero s (normalizePath sep (fst c))"
  shows "fired_counts sep s (map complete_event completes)
       = filter (\<lambda>n. n mod 100 = 0 \<or> n = totalModules s)
           [processedModules s + 1 ..< processedModules s + 1 + length completes]"
  using assms
proof (induction completes arbitrary: s)
  case Nil
  show ?case by simp
next
  case (Cons c cs)
  obtain a t t2 where c: "c = (a, t, t2)" by (cases c)
  let ?k = "normalizePath sep a"
  let ?s = "fst (moduleParsed sep a t t2 s)"
  from Cons.prems c obtain st where st: "map_of (startTimes s) ?k = Some st" "st \<noteq> 0"
    by (auto simp: pending_nonzero_def split: option.splits)
  have pm: "processedModules ?s = processedModules s + 1"
    and tm: "totalModules ?s = totalModules s"
    and stt: "startTimes ?s = AList.delete ?k (startTimes s)"
    using st by (simp_all add: moduleParsed_def Let_def)
  have sh: "shown_count sep s (ModuleParsed a t t2)
      = (if (processedModules s + 1) mod 100 = 0 \<or> processedModules s + 1 = totalModules s
         then [processedModules s + 1] else [])"
    using st by (simp add: moduleParsed_def Let_def)
  have "\<forall>c\<in>set cs. pending_nonzero ?s (normalizePath sep (fst c))"
  proof
    fix c' assume c': "c' \<in> set cs"
    from Cons.prems c have "?k \<notin> (\<lambda>c. normalizePath sep (fst c)) ` set cs" by simp
    with c' have "normalizePath sep (fst c') \<noteq> ?k" by force
    moreover from Cons.prems c' have "pending_nonzero s (normalizePath sep (fst c'))" by simp
    ultimately show "pending_nonzero ?s (normalizePath sep (fst c'))"
      by (simp add: pending_nonzero_def stt AList.delete_conv')
  qed
  moreover from Cons.prems have "distinct (map (\<lambda>c. normalizePath sep (fst c)) cs)" by simp
  ultimately have ih: "fired_counts sep ?s (map complete_event cs)
       = filter (\<lambda>n. n mod 100 = 0 \<or> n = totalModules ?s)
           [processedModules ?s + 1 ..< processedModules ?s + 1 + length cs]"
    by (intro Cons.IH)
  have u: "[processedModules s + 1 ..< processedModules s + 1 + length (c # cs)]
      = (processedModules s + 1) # [processedModules s + 1 + 1 ..< processedModules s + 1 + 1 + length cs]"
    using upt_first [of "processedModules s + 1" "length cs"] by simp
  show ?case
    unfolding u using ih sh by (simp add: c pm tm)
qed

lemma shown_100_150: "filter (\<lambda>n. n mod 100 = 0 \<or> n = 150) [1 ..< 151] = [100, 150::nat]"
  by code_simp

lemma normalizePath_unit_id: "normalizePath posix_sep (unit_id n) = unit_id n"
  by (simp add: normalizePath_def posix_sep_def unit_id_def takeWhile_append2 map_replicate_const)

lemma inj_unit_id: "inj unit_id"
proof (rule injI)
  fix m n assume "unit_id m = unit_id n"
  then have "length (unit_id m) = length (unit_id n)" by simp
  then show "m = n" by (simp add: unit_id_def)
qed

lemma one_by_one:
  assumes "processedModules s = totalModules s"
    and "distinct ns"
    and "\<forall>n\<in>set ns. unit_id n \<notin> processedIds s"
  shows "fired_counts posix_sep s
           (concat (map (\<lambda>n. [Transform (unit_id n) 1, ModuleParsed (unit_id n) 2 2]) ns))
         = [processedModules s + 1 ..< processedModules s + 1 + length ns]"
  using assms
proof (induction ns arbitrary: s)
  case Nil
  show ?case by simp
next
  case (Cons n ns)
  let ?t = "transform posix_sep (unit_id n) 1 s"
  let ?s = "fst (moduleParsed posix_sep (unit_id n) 2 2 ?t)"
  from Cons.prems have fresh: "unit_id n \<notin> processedIds s" by simp
  have st: "map_of (startTimes ?t) (unit_id n) = Some 1"
    by (simp add: transform_def Let_def normalizePath_unit_id AList.update_conv')
  have tt: "totalModules ?t = totalModules s + 1" "processedModules ?t = processedModules s"
    "processedIds ?t = insert (unit_id n) (processedIds s)"
    using fresh by (simp_all add: transform_def Let_def normalizePath_unit_id)
  have ss: "totalModules ?s = totalModules s + 1" "processedModules ?s = processedModules s + 1"
    "processedIds ?s = insert (unit_id n) (processedIds s)"
    using st tt by (simp_all add: moduleParsed_def Let_def normalizePath_unit_id)
  have sh: "shown_count posix_sep ?t (ModuleParsed (unit_id n) 2 2) = [processedModules s + 1]"
    using st tt Cons.prems(1) by (simp add: moduleParsed_def Let_def normalizePath_unit_id)
  from Cons.prems have "\<forall>m\<in>set ns. unit_id m \<notin> processedIds ?s"
    using inj_unit_id by (auto simp: ss dest: injD)
  moreover from Cons.prems have "distinct ns" by simp
  moreover from ss Cons.prems have "processedModules ?s = totalModules ?s" by simp
  ultimately have ih: "fired_counts posix_sep ?s
           (concat (map (\<lambda>n. [Transform (unit_id n) 1, ModuleParsed (unit_id n) 2 2]) ns))
         = [processedModules ?s + 1 ..< processedModules ?s + 1 + length ns]"
    by (intro Cons.IH)
  have u: "[processedModules s + 1 ..< processedModules s + 1 + length (n # ns)]
      = (processedModules s + 1) # [processedModules s + 1 + 1 ..< processedModules s + 1 + 1 + length ns]"
    using upt_first [of "processedModules s + 1" "length ns"] by simp
  show ?case
    unfolding u using ih sh by (simp add: ss)
qed

text \<open>
  Claim C4, as it is stated, fails: it does not fix the order of the calls, and when
  each of the 150 units is completed before the next one is started, the counter of
  completions catches up with \<open>totalModules\<close> at every completion, so a snapshot is
  printed at every count from 1 to 150.
\<close>

theorem interleaved_build_shows_every_completion:
  "fired_counts posix_sep init (BuildStart 0 # interleaved_build) = [1..<151]"
proof -
  have "fired_counts posix_sep (buildStart 0 init) interleaved_build
      = [processedModules (buildStart 0 init) + 1
           ..< processedModules (buildStart 0 init) + 1 + length [0..<150]]"
    unfolding interleaved_build_def
    by (rule one_by_one) (simp_all add: buildStart_def)
  then show ?thesis by (simp add: buildStart_def)
qed

text \<open>
  Claim C4, amended. After a reset, when 150 units with distinct keys are all started,
  none at clock value 0, before the first of them completes, and each is then completed
  once, in any order, a snapshot is printed exactly at the completion counts 100 and
  150. The durations play no part in this.
\<close>

theorem snapshots_at_100_and_150:
  assumes "length starts = 150"
    and "distinct (map (\<lambda>x. normalizePath sep (fst x)) starts)"
    and "\<forall>x\<in>set starts. snd x \<noteq> 0"
    and "mset (map (\<lambda>c. normalizePath sep (fst c)) completes)
         = mset (map (\<lambda>x. normalizePath sep (fst x)) starts)"
  shows "fired_counts sep s0
           (BuildStart t0 # map start_event starts @ map complete_event completes)
         = [100, 150]"
proof -
  let ?r = "buildStart t0 s0"
  let ?s = "exec sep (map start_event starts) ?r"
  have "\<forall>x\<in>set starts. normalizePath sep (fst x) \<notin> processedIds ?r"
    by (simp add: buildStart_def)
  from starts_phase [OF assms(2,3) this]
  have tm: "totalModules ?s = 150" and pm: "processedModules ?s = 0"
    and pend: "\<forall>x\<in>set starts. pending_nonzero ?s (normalizePath sep (fst x))"
    using assms(1) by (simp_all add: buildStart_def)
  from assms(4) have d: "distinct (map (\<lambda>c. normalizePath sep (fst c)) completes)"
    using assms(2) by (metis mset_eq_imp_distinct_iff)
  from assms(4) have "set (map (\<lambda>c. normalizePath sep (fst c)) completes)
      = set (map (\<lambda>x. normalizePath sep (fst x)) starts)"
    by (rule mset_eq_setD)
  then have keys: "(\<lambda>c. normalizePath sep (fst c)) ` set completes
      = (\<lambda>x. normalizePath sep (fst x)) ` set starts"
    by simp
  have p: "\<forall>c\<in>set completes. pending_nonzero ?s (normalizePath sep (fst c))"
  proof
    fix c assume "c \<in> set completes"
    then have "normalizePath sep (fst c) \<in> (\<lambda>c. normalizePath sep (fst c)) ` set completes"
      by (rule imageI)
    then have "normalizePath sep (fst c) \<in> (\<lambda>x. normalizePath sep (fst x)) ` set starts"
      by (simp only: keys)
    then obtain x where "x \<in> set starts" "normalizePath sep (fst c) = normalizePath sep (fst x)"
      by (rule imageE)
    with pend show "pending_nonzero ?s (normalizePath sep (fst c))" by simp
  qed
  from assms(4) have "length (map (\<lambda>c. normalizePath sep (fst c)) completes)
      = length (map (\<lambda>x. normalizePath sep (fst x)) starts)"
    by (rule mset_eq_length)
  with assms(1) have l: "length completes = 150" by simp
  have "fired_counts sep ?s (map complete_event completes) = [100, 150]"
    using completes_phase [OF d p] shown_100_150 by (simp add: tm pm l)
  then show ?thesis
    by (simp add: fired_counts_append fired_counts_starts)
qed

theorem snapshots_at_100_and_150_witness:
  "fired_counts posix_sep init
     (BuildStart 0 # map start_event (map (\<lambda>n. (unit_id n, 1)) [0..<150])
        @ map complete_event (map (\<lambda>n. (unit_id n, 5, 6)) (rev [0..<150])))
   = [100, 150]"
proof -
  have key: "(\<lambda>x. normalizePath posix_sep (fst x)) \<circ> (\<lambda>n. (unit_id n, 1::rat)) = unit_id"
    by (rule ext) (simp add: normalizePath_unit_id)
  have ckey: "(\<lambda>c. normalizePath posix_sep (fst c)) \<circ> (\<lambda>n. (unit_id n, 5::rat, 6::rat)) = unit_id"
    by (rule ext) (simp add: normalizePath_unit_id)
  have h1: "length (map (\<lambda>n. (unit_id n, 1::rat)) [0..<150]) = 150" by simp
  have h2: "distinct (map (\<lambda>x. normalizePath posix_sep (fst x))
      (map (\<lambda>n. (unit_id n, 1::rat)) [0..<150]))"
    unfolding map_map key
    by (simp add: distinct_map inj_on_subset [OF inj_unit_id])
  have h3: "\<forall>x\<in>set (map (\<lambda>n. (unit_id n, 1::rat)) [0..<150]). snd x \<noteq> 0"
    by auto
  have h4: "mset (map (\<lambda>c. normalizePath posix_sep (fst c))
        (map (\<lambda>n. (unit_id n, 5::rat, 6::rat)) (rev [0..<150])))
      = mset (map (\<lambda>x. normalizePath posix_sep (fst x))
        (map (\<lambda>n. (unit_id n, 1::rat)) [0..<150]))"
    unfolding map_map key ckey by (simp only: mset_map mset_rev)
  show ?thesis
    by (rule snapshots_at_100_and_150 [OF h1 h2 h3 h4])
qed

subsection \<open>Repeated starts of one unit\<close>

lemma transform_known:
  "normalizePath sep a \<in> processedIds s \<Longrightarrow>
   totalModules (transform sep a now s) = totalModules s
   \<and> processedIds (transform sep a now s) = processedIds s"
  by (simp add: transform_def Let_def)

lemma transform_new:
  "normalizePath sep a \<notin> processedIds s \<Longrightarrow>
   totalModules (transform sep a now s) = totalModules s + 1
   \<and> processedIds (transform sep a now s) = insert (normalizePath sep a) (processedIds s)"
  by (simp add: transform_def Let_def)

lemma starts_known:
  "k \<in> processedIds s \<Longrightarrow> \<forall>x\<in>set starts. normalizePath sep (fst x) = k \<Longrightarrow>
   totalModules (exec sep (map start_event starts) s) = totalModules s
   \<and> processedIds (exec sep (map start_event starts) s) = processedIds s"
proof (induction starts arbitrary: s)
  case Nil
  then show ?case by (simp add: exec_Nil)
next
  case (Cons x xs)
  obtain a t where x: "x = (a, t)" by (cases x)
  from Cons.prems x have k: "normalizePath sep a \<in> processedIds s" by simp
  note tr = transform_known [OF k, of t]
  from tr Cons.prems have "k \<in> processedIds (transform sep a t s)" by simp
  moreover from Cons.prems have "\<forall>x\<in>set xs. normalizePath sep (fst x) = k" by simp
  ultimately have "totalModules (exec sep (map start_event xs) (transform sep a t s))
        = totalModules (transform sep a t s)
      \<and> processedIds (exec sep (map start_event xs) (transform sep a t s))
        = processedIds (transform sep a t s)"
    by (rule Cons.IH)
  with tr x show ?case by (simp add: exec_Cons)
qed

text \<open>
  Claim C6. Any number \<open>N \<ge> 1\<close> of consecutive start calls whose ids normalise to one
  key \<open>k\<close>, with \<open>k\<close> not yet known when the first of them arrives (as after a reset),
  increases \<open>totalModules\<close> by exactly 1 and adds exactly \<open>k\<close> to \<open>processedIds\<close>.
\<close>

theorem repeated_starts_count_once:
  assumes "starts \<noteq> []"
    and "\<forall>x\<in>set starts. normalizePath sep (fst x) = k"
    and "k \<notin> processedIds s"
  shows "totalModules (exec sep (map start_event starts) s) = totalModules s + 1
       \<and> processedIds (exec sep (map start_event starts) s) = insert k (processedIds s)"
proof -
  from assms(1) obtain a t xs where st: "starts = (a, t) # xs"
    by (cases starts) auto
  from assms(2) st have ka: "normalizePath sep a = k" by simp
  with assms(3) have "normalizePath sep a \<notin> processedIds s" by simp
  note tr = transform_new [OF this, of t]
  from tr ka have "k \<in> processedIds (transform sep a t s)" by simp
  moreover from assms(2) st have "\<forall>x\<in>set xs. normalizePath sep (fst x) = k" by simp
  ultimately have "totalModules (exec sep (map start_event xs) (transform sep a t s))
        = totalModules (transform sep a t s)
      \<and> processedIds (exec sep (map start_event xs) (transform sep a t s))
        = processedIds (transform sep a t s)"
    by (rule starts_known)
  with tr ka st show ?thesis by (simp add: exec_Cons)
qed

theorem repeated_starts_count_once_witness:
  "totalModules (exec posix_sep (map start_event
       [(''/src/a.ts'', 1), (''/src/a.ts?v=1'', 2), (''/src/a.ts?import'', 3)])
       (buildStart 0 init)) = 1
  \<and> totalModules (exec win32_sep (map start_event
       [([CHR ''C'', CHR '':'', CHR 0x5C, CHR ''a'', CHR 0x5C, CHR ''b''], 1), (''C:/a/b?x'', 2)])
       (buildStart 0 init)) = 1"
proof -
  have h1: "[(''/src/a.ts'', 1::rat), (''/src/a.ts?v=1'', 2), (''/src/a.ts?import'', 3)] \<noteq> []"
    by simp
  have h2: "\<forall>x\<in>set [(''/src/a.ts'', 1::rat), (''/src/a.ts?v=1'', 2), (''/src/a.ts?import'', 3)].
      normalizePath posix_sep (fst x) = ''/src/a.ts''"
    by (simp add: normalizePath_def posix_sep_def)
  have h3: "''/src/a.ts'' \<notin> processedIds (buildStart 0 init)"
    by (simp add: buildStart_def)
  have g1: "[([CHR ''C'', CHR '':'', CHR 0x5C, CHR ''a'', CHR 0x5C, CHR ''b''], 1::rat),
      (''C:/a/b?x'', 2)] \<noteq> []"
    by simp
  have g2: "\<forall>x\<in>set [([CHR ''C'', CHR '':'', CHR 0x5C, CHR ''a'', CHR 0x5C, CHR ''b''], 1::rat),
      (''C:/a/b?x'', 2)]. normalizePath win32_sep (fst x) = ''C:/a/b''"
    by (simp add: normalizePath_def win32_sep_def)
  have g3: "''C:/a/b'' \<notin> processedIds (buildStart 0 init)"
    by (simp add: buildStart_def)
  have t: "totalModules (buildStart 0 init) = 0" by (simp add: buildStart_def)
  show ?thesis
    using repeated_starts_count_once [OF h1 h2 h3] repeated_starts_count_once [OF g1 g2 g3] t
    by simp
qed

subsection \<open>Denominators\<close>

lemma moduleParsed_shown:
  assumes "inv s" and "snd (moduleParsed sep ident now now2 s) = Some snap"
  shows "0 < totalModules (fst (moduleParsed sep ident now now2 s))
       \<and> 0 < processedModules (fst (moduleParsed sep ident now now2 s))
       \<and> snap = progress_snapshot now2 (fst (moduleParsed sep ident now now2 s))"
proof (cases "map_of (startTimes s) (normalizePath sep ident)")
  case None
  with assms(2) show ?thesis by (simp add: moduleParsed_def)
next
  case (Some st)
  then have "normalizePath sep ident \<in> processedIds s"
    using assms(1) map_of_Some_key[OF Some] by (auto simp: inv_def)
  with assms(1) have t: "0 < totalModules s"
    by (auto simp: inv_def card_gt_0_iff)
  from assms(2) Some t show ?thesis
    by (auto simp: moduleParsed_def Let_def progress_snapshot_def split: if_splits)
qed

lemma progress_snapshot_finite:
  "0 < totalModules s \<Longrightarrow> 0 < processedModules s \<Longrightarrow>
   progress (progress_snapshot now2 s) \<noteq> None
   \<and> avgTimePerModule (progress_snapshot now2 s) \<noteq> None
   \<and> estimatedRemainingTime (progress_snapshot now2 s) \<noteq> None"
  by (simp add: progress_snapshot_def js_div_def Let_def)

lemma closeBundle_shown:
  assumes "inv s" and "snd (closeBundle s) = Some rep"
  shows "0 < totalModules s \<and> 0 < processedModules s \<and> averageTime rep \<noteq> None"
proof -
  from assms(2) have ne: "slowModules s \<noteq> []"
    by (auto simp: closeBundle_def split: if_splits)
  with assms(1) have t: "0 < totalModules s" by (rule inv_slow_total)
  from assms(1) ne have p: "0 < processedModules s" by (simp add: inv_def)
  from assms(2) ne t have "averageTime rep \<noteq> None"
    by (auto simp: closeBundle_def Let_def js_div_def)
  with t p show ?thesis by simp
qed

text \<open>
  Claim C8. In every state a run can reach: when \<open>moduleParsed\<close> prints a progress
  snapshot, \<open>totalModules\<close> and \<open>processedModules\<close> are positive at that moment, so the
  percentage, the average per module and the estimate are quotients by nonzero numbers;
  and when \<open>closeBundle\<close> gets as far as the overall statistics, both counters are
  positive, so the average time is one too.
\<close>

theorem no_zero_denominator:
  "(\<forall>ident now now2 snap.
       snd (moduleParsed sep ident now now2 (exec sep evs init)) = Some snap
       \<longrightarrow> 0 < totalModules (fst (moduleParsed sep ident now now2 (exec sep evs init)))
         \<and> 0 < processedModules (fst (moduleParsed sep ident now now2 (exec sep evs init)))
         \<and> progress snap \<noteq> None \<and> avgTimePerModule snap \<noteq> None
         \<and> estimatedRemainingTime snap \<noteq> None)
   \<and> (\<forall>rep.
       snd (closeBundle (exec sep evs init)) = Some rep
       \<longrightarrow> 0 < totalModules (exec sep evs init) \<and> 0 < processedModules (exec sep evs init)
         \<and> averageTime rep \<noteq> None)"
proof -
  have i: "inv (exec sep evs init)"
    by (rule inv_exec) (rule inv_init)
  show ?thesis
  proof (intro conjI allI impI)
    fix ident now now2 snap
    assume a: "snd (moduleParsed sep ident now now2 (exec sep evs init)) = Some snap"
    note m = moduleParsed_shown [OF i a]
    from m show "0 < totalModules (fst (moduleParsed sep ident now now2 (exec sep evs init)))"
      by simp
    from m show "0 < processedModules (fst (moduleParsed sep ident now now2 (exec sep evs init)))"
      by simp
    from m progress_snapshot_finite [of "fst (moduleParsed sep ident now now2 (exec sep evs init))" now2]
    show "progress snap \<noteq> None" "avgTimePerModule snap \<noteq> None"
      "estimatedRemainingTime snap \<noteq> None"
      by simp_all
  next
    fix rep
    assume a: "snd (closeBundle (exec sep evs init)) = Some rep"
    note c = closeBundle_shown [OF i a]
    from c show "0 < totalModules (exec sep evs init)" by simp
    from c show "0 < processedModules (exec sep evs init)" by simp
    from c show "averageTime rep \<noteq> None" by simp
  qed
qed

theorem no_zero_denominator_witness:
  "(\<exists>snap. snd (moduleParsed posix_sep ''/src/a.ts'' 301 400
        (exec posix_sep [BuildStart 0, Transform ''/src/a.ts'' 1] init)) = Some snap
      \<and> progress snap \<noteq> None \<and> avgTimePerModule snap \<noteq> None
      \<and> estimatedRemainingTime snap \<noteq> None)
   \<and> (\<exists>rep. snd (closeBundle (exec posix_sep
        [BuildStart 0, Transform ''/src/a.ts'' 1, ModuleParsed ''/src/a.ts'' 301 400] init))
        = Some rep
      \<and> averageTime rep \<noteq> None)"
proof -
  have "snd (moduleParsed posix_sep ''/src/a.ts'' 301 400
        (exec posix_sep [BuildStart 0, Transform ''/src/a.ts'' 1] init)) \<noteq> None"
    by (simp add: hook_defs)
  then obtain snap where a: "snd (moduleParsed posix_sep ''/src/a.ts'' 301 400
        (exec posix_sep [BuildStart 0, Transform ''/src/a.ts'' 1] init)) = Some snap"
    by blast
  have "snd (closeBundle (exec posix_sep
        [BuildStart 0, Transform ''/src/a.ts'' 1, ModuleParsed ''/src/a.ts'' 301 400] init))
      \<noteq> None"
    by (simp add: hook_defs)
  then obtain rep where b: "snd (closeBundle (exec posix_sep
        [BuildStart 0, Transform ''/src/a.ts'' 1, ModuleParsed ''/src/a.ts'' 301 400] init))
      = Some rep"
    by blast
  from a b
    no_zero_denominator [of posix_sep "[BuildStart 0, Transform ''/src/a.ts'' 1]"]
    no_zero_denominator [of posix_sep
      "[BuildStart 0, Transform ''/src/a.ts'' 1, ModuleParsed ''/src/a.ts'' 301 400]"]
  show ?thesis by blast
qed

subsection \<open>A start with a query suffix\<close>

lemma transform_pending:
  "map_of (startTimes (transform sep a t0 s)) (normalizePath sep a) = Some t0"
  by (simp add: transform_def Let_def AList.update_conv')

lemma transform_processedModules:
  "processedModules (transform sep a t0 s) = processedModules s"
  by (simp add: transform_def Let_def)

lemma moduleParsed_records:
  assumes "map_of (startTimes s) (normalizePath sep b) = Some st" and "st \<noteq> 0"
  shows "map_of (moduleTransformTimes (fst (moduleParsed sep b now now2 s))) (normalizePath sep b)
           = Some (now - st)
       \<and> processedModules (fst (moduleParsed sep b now now2 s)) = processedModules s + 1
       \<and> map_of (startTimes (fst (moduleParsed sep b now now2 s))) (normalizePath sep b) = None"
  using assms
  by (simp add: moduleParsed_def Let_def AList.update_conv' AList.delete_conv')

text \<open>
  On either platform's separator, \<open>/node_modules/lib/x.js?query=1\<close> and
  \<open>/node_modules/lib/x.js\<close> normalise to the key \<open>/node_modules/lib/x.js\<close>. A start of
  the first at a clock value \<open>t0\<close> other than 0 is found by the completion of the second
  at \<open>t1\<close>: the duration \<open>t1 - t0\<close> is recorded for the key, the completion counter goes
  up by one and the start is no longer pending.
\<close>

lemma query_suffix_start_found:
  assumes "sep = posix_sep \<or> sep = win32_sep" and "t0 \<noteq> 0"
  shows "normalizePath sep ''/node_modules/lib/x.js?query=1'' = ''/node_modules/lib/x.js''
       \<and> normalizePath sep ''/node_modules/lib/x.js'' = ''/node_modules/lib/x.js''
       \<and> (let s1 = transform sep ''/node_modules/lib/x.js?query=1'' t0 s;
               s2 = fst (moduleParsed sep ''/node_modules/lib/x.js'' t1 t2 s1)
           in map_of (startTimes s1) ''/node_modules/lib/x.js'' = Some t0
              \<and> map_of (moduleTransformTimes s2) ''/node_modules/lib/x.js'' = Some (t1 - t0)
              \<and> processedModules s2 = processedModules s + 1
              \<and> map_of (startTimes s2) ''/node_modules/lib/x.js'' = None)"
proof -
  have n1: "normalizePath sep ''/node_modules/lib/x.js?query=1'' = ''/node_modules/lib/x.js''"
  proof -
    have "normalizePath posix_sep ''/node_modules/lib/x.js?query=1'' = ''/node_modules/lib/x.js''"
      by (simp add: normalizePath_def posix_sep_def)
    moreover
    have "normalizePath win32_sep ''/node_modules/lib/x.js?query=1'' = ''/node_modules/lib/x.js''"
      by (simp add: normalizePath_def win32_sep_def)
    ultimately show ?thesis using assms(1) by blast
  qed
  have n2: "normalizePath sep ''/node_modules/lib/x.js'' = ''/node_modules/lib/x.js''"
  proof -
    have "normalizePath posix_sep ''/node_modules/lib/x.js'' = ''/node_modules/lib/x.js''"
      by (simp add: normalizePath_def posix_sep_def)
    moreover
    have "normalizePath win32_sep ''/node_modules/lib/x.js'' = ''/node_modules/lib/x.js''"
      by (simp add: normalizePath_def win32_sep_def)
    ultimately show ?thesis using assms(1) by blast
  qed
  have p: "map_of (startTimes (transform sep ''/node_modules/lib/x.js?query=1'' t0 s))
             ''/node_modules/lib/x.js'' = Some t0"
    using transform_pending [of sep "''/node_modules/lib/x.js?query=1''" t0 s]
    by (simp only: n1)
  have p': "map_of (startTimes (transform sep ''/node_modules/lib/x.js?query=1'' t0 s))
             (normalizePath sep ''/node_modules/lib/x.js'') = Some t0"
    using p by (simp only: n2)
  note r = moduleParsed_records [OF p' assms(2), of t1 t2]
  have r': "map_of (moduleTransformTimes (fst (moduleParsed sep ''/node_modules/lib/x.js'' t1 t2
                (transform sep ''/node_modules/lib/x.js?query=1'' t0 s)))) ''/node_modules/lib/x.js''
           = Some (t1 - t0)
       \<and> processedModules (fst (moduleParsed sep ''/node_modules/lib/x.js'' t1 t2
                (transform sep ''/node_modules/lib/x.js?query=1'' t0 s)))
           = processedModules s + 1
       \<and> map_of (startTimes (fst (moduleParsed sep ''/node_modules/lib/x.js'' t1 t2
                (transform sep ''/node_modules/lib/x.js?query=1'' t0 s)))) ''/node_modules/lib/x.js''
           = None"
    using r by (simp only: n2 transform_processedModules)
  show ?thesis
    unfolding Let_def using n1 n2 p r' by blast
qed

text \<open>
  Claim C9. The scenario of the specification: a start of
  \<open>/node_modules/lib/x.js?query=1\<close> and then a completion of \<open>/node_modules/lib/x.js\<close>.
  The specification expects the completion to match the start and to record a duration.
  The two ids do normalise to one key, and the completion does find the pending start;
  but when the start was made at clock value 0, the stored 0 is falsy and \<open>moduleParsed\<close>
  returns at line 77 with the state as it was. With the start at clock value 1 and the
  completion at 41 the duration 40 is recorded.
\<close>

theorem query_suffix_start_at_zero_ignored:
  "(let s0 = transform posix_sep ''/node_modules/lib/x.js?query=1'' 0 (buildStart 0 init);
        s1 = transform posix_sep ''/node_modules/lib/x.js?query=1'' 1 (buildStart 0 init)
    in normalizePath posix_sep ''/node_modules/lib/x.js?query=1''
         = normalizePath posix_sep ''/node_modules/lib/x.js''
     \<and> map_of (startTimes s0) (normalizePath posix_sep ''/node_modules/lib/x.js'') = Some 0
     \<and> moduleParsed posix_sep ''/node_modules/lib/x.js'' 40 40 s0 = (s0, None)
     \<and> moduleTransformTimes (fst (moduleParsed posix_sep ''/node_modules/lib/x.js'' 41 41 s1))
         = [(''/node_modules/lib/x.js'', 40)])"
  by (simp add: hook_defs)

end
